theory Spec2Isabelle
  imports Complex_Main "HOL-Library.AList"
begin

section \<open>The equation-of-time table of \<^verbatim>\<open>eot.py\<close>\<close>

text \<open>
  \<^verbatim>\<open>eot.py\<close> is one straight-line script: it splits the text of the Horizons response
  into lines, takes the lines between \<^verbatim>\<open>$$SOE\<close> and \<^verbatim>\<open>$$EOE\<close>, converts each of them
  into a year and an equation-of-time value, groups the values by year in a
  \<^verbatim>\<open>defaultdict(list)\<close>, checks the two boundary years, pads every year of the range with
  one value of each neighbour, deletes the boundary years and dumps the dictionary.

  The embedding follows the script statement by statement. The HTTP request is outside
  the model: the function \<open>run\<close> below takes the text of the response. The two
  constants \<^verbatim>\<open>start\<close> and \<^verbatim>\<open>end\<close> of the script are parameters of \<open>run\<close>;
  \<open>main\<close> is \<open>run\<close> at the values the script gives them. The value that reaches
  \<^verbatim>\<open>json.dump\<close> is the result of \<open>run\<close>; an exception anywhere before it means that
  nothing is written, because \<^verbatim>\<open>json.dump\<close> is the last statement.

  Characters are \<^typ>\<open>char\<close>, that is code points below 256 (the response of Horizons is
  ASCII).
\<close>

subsection \<open>Exceptions\<close>

datatype error = ValueError | IndexError | AssertionError | KeyError

text \<open>
  A step that may raise returns \<open>Inl\<close> of the exception or \<open>Inr\<close> of its value; the
  statement after it runs in the \<open>Inr\<close> branch only.
\<close>

subsection \<open>Lists and strings of Python\<close>

text \<open>\<^verbatim>\<open>xs[i]\<close>: a negative index counts from the end, an index out of range raises.\<close>

definition getitem :: "'a list \<Rightarrow> int \<Rightarrow> error + 'a" where
  "getitem xs i =
     (if 0 \<le> i \<and> i < int (length xs) then Inr (xs ! nat i)
      else if i < 0 \<and> 0 \<le> int (length xs) + i then Inr (xs ! nat (int (length xs) + i))
      else Inl IndexError)"

text \<open>\<^verbatim>\<open>xs[a:b]\<close>: both bounds are clipped to the list, a negative bound counts from the end.\<close>

definition clip :: "nat \<Rightarrow> int \<Rightarrow> nat" where
  "clip n i = (if i < 0 then nat (max (int n + i) 0) else min (nat i) n)"

definition slice :: "'a list \<Rightarrow> int \<Rightarrow> int \<Rightarrow> 'a list" where
  "slice xs a b = drop (clip (length xs) a) (take (clip (length xs) b) xs)"

text \<open>\<^verbatim>\<open>xs.index(x)\<close>: the position of the first element equal to \<open>x\<close>.\<close>

fun index :: "'a list \<Rightarrow> 'a \<Rightarrow> error + nat" where
  "index [] x = Inl ValueError"
| "index (y # ys) x =
     (if y = x then Inr 0
      else case index ys x of Inl e \<Rightarrow> Inl e | Inr i \<Rightarrow> Inr (Suc i))"

text \<open>\<^verbatim>\<open>s.split(c)\<close> for a separator of one character: never an empty list.\<close>

function split_on :: "char \<Rightarrow> string \<Rightarrow> string list" where
  "split_on c s =
     (case dropWhile (\<lambda>x. x \<noteq> c) s of
        [] \<Rightarrow> [s]
      | _ # rest \<Rightarrow> takeWhile (\<lambda>x. x \<noteq> c) s # split_on c rest)"
  by pat_completeness auto
termination
proof (relation "measure (\<lambda>(c, s). length s)")
  show "wf (measure (\<lambda>(c, s). length s))" by simp
next
  fix c :: char and s x21 x22
  assume "dropWhile (\<lambda>x. x \<noteq> c) s = x21 # x22"
  then have "length (x21 # x22) \<le> length s"
    using length_dropWhile_le [of "\<lambda>x. x \<noteq> c" s] by simp
  then show "((c, x22), (c, s)) \<in> measure (\<lambda>(c, s). length s)" by simp
qed

declare split_on.simps [simp del]

text \<open>
  The white space of \<^verbatim>\<open>str.split()\<close>, \<^verbatim>\<open>int\<close> and \<^verbatim>\<open>float\<close> among the code points
  below 256: U+0009 to U+000D, U+001C to U+0020, U+0085 and U+00A0.
\<close>

definition code_point :: "char \<Rightarrow> int" where
  "code_point c = of_char c"

definition between :: "int \<Rightarrow> int \<Rightarrow> int \<Rightarrow> bool" where
  "between lo hi n \<longleftrightarrow> lo \<le> n \<and> n \<le> hi"

definition is_space :: "char \<Rightarrow> bool" where
  "is_space c \<longleftrightarrow>
     between 9 13 (code_point c) \<or> between 28 32 (code_point c)
     \<or> code_point c = 133 \<or> code_point c = 160"

text \<open>\<^verbatim>\<open>s.split()\<close>: the maximal runs of characters that are not white space.\<close>

function py_split :: "string \<Rightarrow> string list" where
  "py_split s =
     (case dropWhile is_space s of
        [] \<Rightarrow> []
      | c # cs \<Rightarrow> (c # takeWhile (\<lambda>x. \<not> is_space x) cs)
                   # py_split (dropWhile (\<lambda>x. \<not> is_space x) cs))"
  by pat_completeness auto
termination
proof (relation "measure length")
  show "wf (measure length)" by simp
next
  fix s :: string and x21 x22
  assume a: "dropWhile is_space s = x21 # x22"
  have "length (dropWhile (\<lambda>x. \<not> is_space x) x22) \<le> length x22"
    by (rule length_dropWhile_le)
  moreover have "length (x21 # x22) \<le> length s"
    using length_dropWhile_le [of is_space s] a by simp
  ultimately show "(dropWhile (\<lambda>x. \<not> is_space x) x22, s) \<in> measure length" by simp
qed

declare py_split.simps [simp del]

definition py_strip :: "string \<Rightarrow> string" where
  "py_strip s = rev (dropWhile is_space (rev (dropWhile is_space s)))"

subsection \<open>Numbers written in decimal\<close>

text \<open>The digits \<^verbatim>\<open>0\<close> to \<^verbatim>\<open>9\<close> are the code points 48 to 57.\<close>

definition is_digit :: "char \<Rightarrow> bool" where
  "is_digit c \<longleftrightarrow> between 48 57 (code_point c)"

definition digit_val :: "char \<Rightarrow> int" where
  "digit_val c = code_point c - 48"

text \<open>
  A run of digits in which single underscores may stand between two digits
  (\<^verbatim>\<open>digitpart\<close> in the grammar of \<^verbatim>\<open>int\<close> and \<^verbatim>\<open>float\<close>).
\<close>

fun digitpart :: "string \<Rightarrow> bool" where
  "digitpart [] = False"
| "digitpart [c] = is_digit c"
| "digitpart (c # d # cs) =
     (is_digit c \<and> (if d = CHR ''_'' then digitpart cs else digitpart (d # cs)))"

definition digits_val :: "string \<Rightarrow> int" where
  "digits_val ds = foldl (\<lambda>a c. if c = CHR ''_'' then a else 10 * a + digit_val c) 0 ds"

definition strip_sign :: "string \<Rightarrow> bool \<times> string" where
  "strip_sign s =
     (case s of
        [] \<Rightarrow> (False, [])
      | c # cs \<Rightarrow> if c = CHR ''-'' then (True, cs)
                  else if c = CHR ''+'' then (False, cs) else (False, s))"

text \<open>\<^verbatim>\<open>int(s)\<close> of a string, in base ten.\<close>

definition py_int :: "string \<Rightarrow> error + int" where
  "py_int s =
     (case strip_sign (py_strip s) of
        (neg, r) \<Rightarrow>
          if digitpart r then Inr (if neg then - digits_val r else digits_val r)
          else Inl ValueError)"

subsection \<open>Floating-point numbers\<close>

text \<open>
  A Python \<^verbatim>\<open>float\<close> is an IEEE 754 binary64 number: a finite value, which is a
  rational number, an infinity or a NaN. The sign of zero is not modelled (\<^verbatim>\<open>-0.0\<close> and
  \<^verbatim>\<open>0.0\<close> are equal in Python and the script never divides by a computed value).
\<close>

datatype pyfloat = Fin rat | PInf | NInf | NaN

definition pow2 :: "int \<Rightarrow> rat" where
  "pow2 e = (if 0 \<le> e then 2 ^ nat e else 1 / 2 ^ nat (- e))"

text \<open>The nearest integer, a tie going to the even one.\<close>

definition nearest_of :: "rat \<Rightarrow> int \<Rightarrow> int" where
  "nearest_of x f =
     (if x - of_int f < 1 / 2 then f
      else if 1 / 2 < x - of_int f then f + 1
      else if even f then f else f + 1)"

definition round_half_even :: "rat \<Rightarrow> int" where
  "round_half_even x = nearest_of x \<lfloor>x\<rfloor>"

text \<open>The number of binary digits of a positive integer.\<close>

function bit_length :: "int \<Rightarrow> int" where
  "bit_length n = (if n \<le> 0 then 0 else 1 + bit_length (n div 2))"
  by pat_completeness auto
termination
  by (relation "measure nat") auto

declare bit_length.simps [simp del]

text \<open>
  For \<open>0 < q\<close>, the \<open>k\<close> with \<open>2 ^ k \<le> q < 2 ^ (k + 1)\<close>: from the integer part of \<open>q\<close>
  when \<open>1 \<le> q\<close>, and from that of \<open>1 / q\<close> otherwise.
\<close>

definition ilog2 :: "rat \<Rightarrow> int" where
  "ilog2 q = (if 1 \<le> q then bit_length \<lfloor>q\<rfloor> - 1 else - bit_length (\<lceil>1 / q\<rceil> - 1))"

text \<open>
  Rounding of an exact result to binary64, round-to-nearest-even. A number \<open>q\<close> with
  \<open>2 ^ k \<le> \<bar>q\<bar> < 2 ^ (k + 1)\<close> has 53 significant bits, so its unit in the last place is
  \<open>2 ^ (k - 52)\<close>, but never below \<open>2 ^ - 1074\<close> (subnormal numbers); \<open>ulp_exp q\<close> is the
  exponent of that unit and \<open>nearest a e\<close> the multiple of \<open>2 ^ e\<close> nearest to \<open>a\<close>.
  The result is an infinity when the rounded magnitude reaches \<open>2 ^ 1024\<close>. The rounded
  magnitude is at most \<open>2 ^ (e + 53)\<close>, so that needs \<open>971 \<le> e\<close>; the test of \<open>e\<close> keeps the
  large power out of the evaluation of every ordinary case.
\<close>

definition ulp_exp :: "rat \<Rightarrow> int" where
  "ulp_exp q = max (ilog2 \<bar>q\<bar> - 52) (- 1074)"

definition nearest :: "rat \<Rightarrow> int \<Rightarrow> rat" where
  "nearest a e = of_int (round_half_even (a / pow2 e)) * pow2 e"

definition overflows :: "rat \<Rightarrow> bool" where
  "overflows q = (if 971 \<le> ulp_exp q then 2 ^ 1024 \<le> nearest \<bar>q\<bar> (ulp_exp q) else False)"

definition rnd64 :: "rat \<Rightarrow> pyfloat" where
  "rnd64 q =
     (if q = 0 then Fin 0
      else if overflows q then (if 0 < q then PInf else NInf)
      else if 0 < q then Fin (nearest q (ulp_exp q))
      else Fin (- nearest (- q) (ulp_exp q)))"

fun fneg :: "pyfloat \<Rightarrow> pyfloat" where
  "fneg (Fin a) = Fin (- a)"
| "fneg PInf = NInf"
| "fneg NInf = PInf"
| "fneg NaN = NaN"

fun fadd :: "pyfloat \<Rightarrow> pyfloat \<Rightarrow> pyfloat" where
  "fadd (Fin a) (Fin b) = rnd64 (a + b)"
| "fadd NaN y = NaN"
| "fadd x NaN = NaN"
| "fadd PInf NInf = NaN"
| "fadd NInf PInf = NaN"
| "fadd PInf y = PInf"
| "fadd NInf y = NInf"
| "fadd (Fin a) y = y"

definition fsub :: "pyfloat \<Rightarrow> pyfloat \<Rightarrow> pyfloat" where
  "fsub x y = fadd x (fneg y)"

fun fmul :: "pyfloat \<Rightarrow> pyfloat \<Rightarrow> pyfloat" where
  "fmul (Fin a) (Fin b) = rnd64 (a * b)"
| "fmul NaN y = NaN"
| "fmul x NaN = NaN"
| "fmul (Fin a) y = (if a = 0 then NaN else if 0 < a then y else fneg y)"
| "fmul x (Fin b) = (if b = 0 then NaN else if 0 < b then x else fneg x)"
| "fmul x y = (if x = y then PInf else NInf)"

text \<open>
  \<^verbatim>\<open>x / y\<close>. Python raises \<^verbatim>\<open>ZeroDivisionError\<close> when \<open>y\<close> is zero; the script divides by
  the literal \<^verbatim>\<open>60\<close> only, so that case is not part of the program and \<open>fdiv\<close> leaves it
  as NaN.
\<close>

fun fdiv :: "pyfloat \<Rightarrow> pyfloat \<Rightarrow> pyfloat" where
  "fdiv (Fin a) (Fin b) = (if b = 0 then NaN else rnd64 (a / b))"
| "fdiv NaN y = NaN"
| "fdiv x NaN = NaN"
| "fdiv (Fin a) y = Fin 0"
| "fdiv x (Fin b) = (if b = 0 then NaN else if 0 < b then x else fneg x)"
| "fdiv x y = NaN"

text \<open>
  \<^verbatim>\<open>round(x, 2)\<close>: the decimal with two places nearest to the exact value of \<open>x\<close> (a tie
  going to the even one), converted back to a float; an infinity or a NaN is returned
  as it is.
\<close>

fun py_round2 :: "pyfloat \<Rightarrow> pyfloat" where
  "py_round2 (Fin q) = rnd64 (of_int (round_half_even (q * 100)) / 100)"
| "py_round2 x = x"

text \<open>
  \<^verbatim>\<open>float(s)\<close> of a string: white space is stripped, then an optional sign and either
  \<^verbatim>\<open>inf\<close>, \<^verbatim>\<open>infinity\<close> or \<^verbatim>\<open>nan\<close> in any case, or a decimal number
  \<^verbatim>\<open>[digitpart] "." digitpart | digitpart ["."]\<close> with an optional exponent
  \<^verbatim>\<open>("e" | "E") ["+" | "-"] digitpart\<close>. The value is the nearest float.
\<close>

definition same_word :: "string \<Rightarrow> string \<Rightarrow> string \<Rightarrow> bool" where
  "same_word s lo up = list_all2 (\<lambda>c (l, u). c = l \<or> c = u) s (zip lo up)"

definition is_exp_char :: "char \<Rightarrow> bool" where
  "is_exp_char c = (c = CHR ''e'' \<or> c = CHR ''E'')"

definition float_exponent :: "string \<Rightarrow> int option" where
  "float_exponent r =
     (case r of
        [] \<Rightarrow> Some 0
      | _ # x \<Rightarrow>
          (case strip_sign x of
             (neg, ds) \<Rightarrow>
               if digitpart ds then Some (if neg then - digits_val ds else digits_val ds)
               else None))"

definition mantissa_value :: "string \<Rightarrow> string \<Rightarrow> rat option" where
  "mantissa_value ip r =
     (case r of
        [] \<Rightarrow> if digitpart ip then Some (of_int (digits_val ip)) else None
      | _ # fp \<Rightarrow>
          if (ip = [] \<or> digitpart ip) \<and> (fp = [] \<or> digitpart fp) \<and> \<not> (ip = [] \<and> fp = [])
          then Some (of_int (digits_val (ip @ fp)) / 10 ^ length (filter is_digit fp))
          else None)"

definition float_mantissa :: "string \<Rightarrow> rat option" where
  "float_mantissa m =
     mantissa_value (takeWhile (\<lambda>c. c \<noteq> CHR ''.'') m) (dropWhile (\<lambda>c. c \<noteq> CHR ''.'') m)"

definition pow10 :: "int \<Rightarrow> rat" where
  "pow10 e = (if 0 \<le> e then 10 ^ nat e else 1 / 10 ^ nat (- e))"

definition py_float :: "string \<Rightarrow> error + pyfloat" where
  "py_float s =
     (case strip_sign (py_strip s) of
        (neg, r) \<Rightarrow>
          if same_word r ''inf'' ''INF'' \<or> same_word r ''infinity'' ''INFINITY''
          then Inr (if neg then NInf else PInf)
          else if same_word r ''nan'' ''NAN'' then Inr NaN
          else case float_mantissa (takeWhile (\<lambda>c. \<not> is_exp_char c) r) of
                 None \<Rightarrow> Inl ValueError
               | Some m \<Rightarrow>
                   (case float_exponent (dropWhile (\<lambda>c. \<not> is_exp_char c) r) of
                      None \<Rightarrow> Inl ValueError
                    | Some e \<Rightarrow> Inr (rnd64 ((if neg then - m else m) * pow10 e))))"

subsection \<open>One data row\<close>

text \<open>
  \<^verbatim>\<open>eot = (h + (m + s/60)/60 - 12)*60\<close>, each operation in floating point; the integer
  literals become the floats of the same value.
\<close>

definition eot :: "pyfloat \<Rightarrow> pyfloat \<Rightarrow> pyfloat \<Rightarrow> pyfloat" where
  "eot h m s =
     fmul (fsub (fadd h (fdiv (fadd m (fdiv s (Fin 60))) (Fin 60))) (Fin 12)) (Fin 60)"

text \<open>
  The body of the loop from the list \<^verbatim>\<open>a\<close> of the tokens of the row: the variables
  \<^verbatim>\<open>year\<close> and \<^verbatim>\<open>eot\<close>, or the first exception, in the order of the statements.
\<close>

definition parse_tokens :: "string list \<Rightarrow> error + (int \<times> pyfloat)" where
  "parse_tokens a =
     (case getitem a 0 of Inl e \<Rightarrow> Inl e | Inr a0 \<Rightarrow>
      case getitem (split_on CHR ''-'' a0) 0 of Inl e \<Rightarrow> Inl e | Inr y \<Rightarrow>
      case py_int y of Inl e \<Rightarrow> Inl e | Inr year \<Rightarrow>
      case getitem a (- 1) of Inl e \<Rightarrow> Inl e | Inr a1 \<Rightarrow>
      case py_float a1 of Inl e \<Rightarrow> Inl e | Inr s \<Rightarrow>
      case getitem a (- 2) of Inl e \<Rightarrow> Inl e | Inr a2 \<Rightarrow>
      case py_float a2 of Inl e \<Rightarrow> Inl e | Inr m \<Rightarrow>
      case getitem a (- 3) of Inl e \<Rightarrow> Inl e | Inr a3 \<Rightarrow>
      case py_float a3 of Inl e \<Rightarrow> Inl e | Inr h \<Rightarrow>
      Inr (year, eot h m s))"

text \<open>
  One data row: \<^verbatim>\<open>a = line.split()\<close>, the statements above, and the value
  \<^verbatim>\<open>round(eot, 2)\<close> that is appended to the list of the year.
\<close>

definition parse_row :: "string \<Rightarrow> error + (int \<times> pyfloat)" where
  "parse_row line =
     (case parse_tokens (py_split line) of
        Inl e \<Rightarrow> Inl e
      | Inr (year, x) \<Rightarrow> Inr (year, py_round2 x))"

subsection \<open>The table\<close>

text \<open>
  An entry of a list of the table is a float or, for the two tuples of \<^verbatim>\<open>e\<close> that are
  built with it, \<^verbatim>\<open>None\<close>. The dictionary \<^verbatim>\<open>eots_of_year\<close> is an association list in
  the order in which its keys were inserted, which is the order \<^verbatim>\<open>json.dump\<close> writes.

  Reading a missing key of a \<^verbatim>\<open>defaultdict(list)\<close> gives the empty list and stores it
  under the key. Where the script only reads (\<^verbatim>\<open>len(eots_of_year[k])\<close>,
  \<^verbatim>\<open>eots_of_year[k][0]\<close>) the empty list makes that very statement raise, so the stored key
  is never seen and \<open>lookup\<close> is a pure function; where the script changes the list in
  place, \<open>modify\<close> stores the new list under the key, at the end if the key is new.
\<close>

type_synonym val = "pyfloat option"

type_synonym table = "(int \<times> val list) list"

definition lookup :: "table \<Rightarrow> int \<Rightarrow> val list" where
  "lookup d k = (case map_of d k of None \<Rightarrow> [] | Some vs \<Rightarrow> vs)"

definition modify :: "table \<Rightarrow> int \<Rightarrow> (val list \<Rightarrow> val list) \<Rightarrow> table" where
  "modify d k f = AList.update k (f (lookup d k)) d"

text \<open>\<^verbatim>\<open>del d[k]\<close>.\<close>

definition delitem :: "table \<Rightarrow> int \<Rightarrow> error + table" where
  "delitem d k = (if map_of d k = None then Inl KeyError else Inr (AList.delete k d))"

text \<open>The loop over the data rows, from the dictionary \<open>d\<close> built so far.\<close>

fun group_rows :: "table \<Rightarrow> string list \<Rightarrow> error + table" where
  "group_rows d [] = Inr d"
| "group_rows d (line # ls) =
     (case parse_row line of
        Inl e \<Rightarrow> Inl e
      | Inr (year, v) \<Rightarrow> group_rows (modify d year (\<lambda>vs. vs @ [Some v])) ls)"

text \<open>The dictionary \<^verbatim>\<open>e\<close> of the first and last value of each year.\<close>

type_synonym ends = "int \<rightharpoonup> val \<times> val"

definition ends_item :: "ends \<Rightarrow> int \<Rightarrow> error + val \<times> val" where
  "ends_item e k = (case e k of None \<Rightarrow> Inl KeyError | Some p \<Rightarrow> Inr p)"

text \<open>\<^verbatim>\<open>for year in range(start, end+1): e[year] = (eots_of_year[year][0], eots_of_year[year][-1])\<close>\<close>

fun record_ends :: "table \<Rightarrow> ends \<Rightarrow> int list \<Rightarrow> error + ends" where
  "record_ends d e [] = Inr e"
| "record_ends d e (year # ys) =
     (case getitem (lookup d year) 0 of Inl x \<Rightarrow> Inl x | Inr v0 \<Rightarrow>
      case getitem (lookup d year) (- 1) of Inl x \<Rightarrow> Inl x | Inr v1 \<Rightarrow>
      record_ends d (e(year \<mapsto> (v0, v1))) ys)"

text \<open>
  \<^verbatim>\<open>for year in range(start, end+1):\<close>
  \<^verbatim>\<open>    eots_of_year[year].insert(0, e[year-1][1])\<close>
  \<^verbatim>\<open>    eots_of_year[year].append(e[year+1][0])\<close>
\<close>

fun pad :: "ends \<Rightarrow> table \<Rightarrow> int list \<Rightarrow> error + table" where
  "pad e d [] = Inr d"
| "pad e d (year # ys) =
     (case ends_item e (year - 1) of Inl x \<Rightarrow> Inl x | Inr p \<Rightarrow>
      case ends_item e (year + 1) of Inl x \<Rightarrow> Inl x | Inr n \<Rightarrow>
      pad e (modify (modify d year (\<lambda>vs. snd p # vs)) year (\<lambda>vs. vs @ [fst n])) ys)"

text \<open>The lines between the sentinels: \<^verbatim>\<open>lines[lines.index('$$SOE')+1:lines.index('$$EOE')]\<close>.\<close>

definition rows_between :: "string list \<Rightarrow> error + string list" where
  "rows_between lines =
     (case index lines ''$$SOE'' of Inl e \<Rightarrow> Inl e | Inr i \<Rightarrow>
      case index lines ''$$EOE'' of Inl e \<Rightarrow> Inl e | Inr j \<Rightarrow>
      Inr (slice lines (int i + 1) (int j)))"

text \<open>\<^verbatim>\<open>lines = response.text.split('\n')\<close> and the slice.\<close>

definition data_rows :: "string \<Rightarrow> error + string list" where
  "data_rows text = rows_between (split_on CHR 0x0A text)"

text \<open>Everything after the loop: the two assertions, \<^verbatim>\<open>e\<close>, the padding and the deletions.\<close>

definition finish :: "int \<Rightarrow> int \<Rightarrow> table \<Rightarrow> error + table" where
  "finish start end_year d =
     (if length (lookup d (start - 1)) \<noteq> 1 then Inl AssertionError
      else if length (lookup d (end_year + 1)) \<noteq> 1 then Inl AssertionError
      else
        case getitem (lookup d (start - 1)) 0 of Inl x \<Rightarrow> Inl x | Inr v0 \<Rightarrow>
        case getitem (lookup d (end_year + 1)) 0 of Inl x \<Rightarrow> Inl x | Inr v1 \<Rightarrow>
        case record_ends d
               ((Map.empty(start - 1 \<mapsto> (None, v0)))(end_year + 1 \<mapsto> (v1, None)))
               [start..end_year] of Inl x \<Rightarrow> Inl x | Inr e \<Rightarrow>
        case pad e d [start..end_year] of Inl x \<Rightarrow> Inl x | Inr d1 \<Rightarrow>
        case delitem d1 (start - 1) of Inl x \<Rightarrow> Inl x | Inr d2 \<Rightarrow>
        delitem d2 (end_year + 1))"

definition process :: "int \<Rightarrow> int \<Rightarrow> string list \<Rightarrow> error + table" where
  "process start end_year rows =
     (case group_rows [] rows of Inl e \<Rightarrow> Inl e | Inr d \<Rightarrow> finish start end_year d)"

definition run :: "int \<Rightarrow> int \<Rightarrow> string \<Rightarrow> error + table" where
  "run start end_year text =
     (case data_rows text of Inl e \<Rightarrow> Inl e | Inr rows \<Rightarrow> process start end_year rows)"

text \<open>The script: \<^verbatim>\<open>start = 2000\<close>, \<^verbatim>\<open>end = 2100\<close>.\<close>

definition main :: "string \<Rightarrow> error + table" where
  "main text = run 2000 2100 text"

section \<open>Notions of the specification\<close>

text \<open>
  The Gregorian rule: a year is a leap year when it is divisible by 4, and not by 100
  unless also by 400.
\<close>

definition is_leap :: "int \<Rightarrow> bool" where
  "is_leap y \<longleftrightarrow> y mod 4 = 0 \<and> (y mod 100 \<noteq> 0 \<or> y mod 400 = 0)"

definition days_in_year :: "int \<Rightarrow> nat" where
  "days_in_year y = (if is_leap y then 366 else 365)"

text \<open>
  The requested window runs from 31 December of \<open>start - 1\<close> to 1 January of
  \<open>end + 1\<close>; \<open>window_days\<close> is the number of its calendar days that lie in the year \<open>y\<close>.
\<close>

definition window_days :: "int \<Rightarrow> int \<Rightarrow> int \<Rightarrow> nat" where
  "window_days start end_year y =
     (if y = start - 1 \<or> y = end_year + 1 then 1
      else if start \<le> y \<and> y \<le> end_year then days_in_year y
      else 0)"

text \<open>
  When every data row converts, \<open>ps\<close> is the list of the pairs of year and rounded value
  of the rows, in the order of the rows; \<open>year_values ps y\<close> is the sequence of the values
  of the year \<open>y\<close>, as the loop leaves it in \<^verbatim>\<open>eots_of_year[y]\<close>.
\<close>

definition year_values :: "(int \<times> pyfloat) list \<Rightarrow> int \<Rightarrow> val list" where
  "year_values ps y = map (\<lambda>p. Some (snd p)) (filter (\<lambda>p. fst p = y) ps)"

text \<open>An entry of the table that is a number between \<open>-20\<close> and \<open>20\<close>.\<close>

definition in_range :: "val \<Rightarrow> bool" where
  "in_range v = (case v of Some (Fin q) \<Rightarrow> - 20 \<le> q \<and> q \<le> 20 | _ \<Rightarrow> False)"

text \<open>A text from its lines: \<^verbatim>\<open>'\n'.join(ls)\<close>.\<close>

fun join_lines :: "string list \<Rightarrow> string" where
  "join_lines [] = []"
| "join_lines [l] = l"
| "join_lines (l # m # ls) = l @ CHR 0x0A # join_lines (m # ls)"

section \<open>Example responses\<close>

text \<open>
  A small response for the years 2000 and 2001: the first and the last day of each year,
  and the one day before and after that the window adds. The rows have the format of the
  response shown in the script.
\<close>

definition row_a :: string where
  "row_a = '' 1999-Dec-31 12:00 *m  11 57 11.8441''"

definition row_b :: string where
  "row_b = '' 2000-Jan-01 12:00 *m  11 56 43.2074''"

definition row_c :: string where
  "row_c = '' 2000-Dec-31 12:00 *m  11 57 09.3426''"

definition row_d :: string where
  "row_d = '' 2001-Jan-01 12:00 *m  11 56 40.8494''"

definition row_e :: string where
  "row_e = '' 2001-Dec-31 12:00 *m  11 57 38.1239''"

definition row_f :: string where
  "row_f = '' 2002-Jan-01 12:00 *m  11 56 14.8592''"

definition sample_rows :: "string list" where
  "sample_rows = [row_a, row_b, row_c, row_d, row_e, row_f]"

definition sample_response :: string where
  "sample_response =
     join_lines ([''API VERSION: 1.2'', ''Date__(UT)__HR:MN     L_Ap_SOL_Time'']
                 @ ''$$SOE'' # sample_rows @ ''$$EOE'' # [''Column meaning:''])"

text \<open>The floats \<^verbatim>\<open>-2.8\<close>, \<^verbatim>\<open>-3.28\<close>, \<^verbatim>\<open>-2.84\<close>, \<^verbatim>\<open>-3.32\<close>, \<^verbatim>\<open>-2.36\<close> and \<^verbatim>\<open>-3.75\<close>.\<close>

definition val_a :: pyfloat where
  "val_a = Fin (- (3152519739159347 / 1125899906842624))"

definition val_b :: pyfloat where
  "val_b = Fin (- (7385903388887613 / 2251799813685248))"

definition val_c :: pyfloat where
  "val_c = Fin (- (799388933858263 / 281474976710656))"

definition val_d :: pyfloat where
  "val_d = Fin (- (7475975381435023 / 2251799813685248))"

definition val_e :: pyfloat where
  "val_e = Fin (- (5314247560297185 / 2251799813685248))"

definition val_f :: pyfloat where
  "val_f = Fin (- (15 / 4))"

definition sample_pairs :: "(int \<times> pyfloat) list" where
  "sample_pairs =
     [(1999, val_a), (2000, val_b), (2000, val_c), (2001, val_d), (2001, val_e), (2002, val_f)]"

definition sample_groups :: table where
  "sample_groups =
     [(1999, [Some val_a]), (2000, [Some val_b, Some val_c]),
      (2001, [Some val_d, Some val_e]), (2002, [Some val_f])]"

definition sample_table :: table where
  "sample_table =
     [(2000, [Some val_a, Some val_b, Some val_c, Some val_d]),
      (2001, [Some val_c, Some val_d, Some val_e, Some val_f])]"

text \<open>The same response cut off before the line \<^verbatim>\<open>$$EOE\<close>.\<close>

definition truncated_response :: string where
  "truncated_response = join_lines [''API VERSION: 1.2'', ''$$SOE'', row_a, row_b]"

text \<open>
  A response for the year 2000 alone with one row for each of its 366 days (all with the
  time of day of \<open>row_b\<close>), after the row of 31 December 1999 and before that of
  1 January 2001.
\<close>

definition full_rows :: "string list" where
  "full_rows = row_a # replicate 366 row_b @ [row_d]"

definition full_pairs :: "(int \<times> pyfloat) list" where
  "full_pairs = (1999, val_a) # replicate 366 (2000, val_b) @ [(2001, val_d)]"

definition full_response :: string where
  "full_response = join_lines ([''API VERSION: 1.2''] @ ''$$SOE'' # full_rows @ ''$$EOE'' # [])"

section \<open>Properties\<close>


subsection \<open>Indexing, searching and slicing lists\<close>

lemma getitem_first: "xs \<noteq> [] \<Longrightarrow> getitem xs 0 = Inr (hd xs)"
  by (cases xs) (simp_all add: getitem_def)

lemma getitem_last: "xs \<noteq> [] \<Longrightarrow> getitem xs (- 1) = Inr (last xs)"
proof -
  assume ne: "xs \<noteq> []"
  then have "nat (int (length xs) + - 1) = length xs - 1"
    by (cases xs) simp_all
  with ne show ?thesis
    by (simp add: getitem_def last_conv_nth)
qed

lemma getitem_Nil [simp]: "getitem [] i = Inl IndexError"
  by (simp add: getitem_def)

lemma getitem_first_Inr: "getitem xs 0 = Inr v \<Longrightarrow> xs \<noteq> [] \<and> v = hd xs"
  by (cases xs) (simp_all add: getitem_def)

lemma getitem_last_Inr: "getitem xs (- 1) = Inr v \<Longrightarrow> xs \<noteq> [] \<and> v = last xs"
  using getitem_last [of xs] by (cases "xs = []") simp_all

lemma getitem_Inr_length:
  "getitem xs i = Inr v \<Longrightarrow> (0 \<le> i \<and> i < int (length xs)) \<or> (i < 0 \<and> - int (length xs) \<le> i)"
  by (auto simp: getitem_def split: if_splits)

lemma index_Inl: "index xs x = Inl e \<Longrightarrow> e = ValueError \<and> x \<notin> set xs"
  by (induction xs) (auto split: if_splits sum.splits)

lemma index_notin: "x \<notin> set xs \<Longrightarrow> index xs x = Inl ValueError"
  by (induction xs) auto

lemma index_Inr:
  "index xs x = Inr i \<Longrightarrow> i < length xs \<and> xs ! i = x \<and> (\<forall>k<i. xs ! k \<noteq> x)"
proof (induction xs arbitrary: i)
  case Nil
  then show ?case by simp
next
  case (Cons y ys)
  show ?case
  proof (cases "y = x")
    case True
    with Cons.prems show ?thesis by simp
  next
    case False
    with Cons.prems obtain j where j: "index ys x = Inr j" "i = Suc j"
      by (auto split: sum.splits)
    from Cons.IH [OF j(1)] have ih: "j < length ys" "ys ! j = x" "\<forall>k<j. ys ! k \<noteq> x"
      by simp_all
    have "\<forall>k<Suc j. (y # ys) ! k \<noteq> x"
    proof (intro allI impI)
      fix k assume "k < Suc j"
      then show "(y # ys) ! k \<noteq> x"
        using False ih(3) by (cases k) simp_all
    qed
    with ih j(2) show ?thesis by simp
  qed
qed

lemma index_in: "x \<in> set xs \<Longrightarrow> \<exists>i. index xs x = Inr i"
  by (induction xs) auto

lemma index_append_first: "x \<notin> set xs \<Longrightarrow> index (xs @ x # ys) x = Inr (length xs)"
  by (induction xs) auto

lemma slice_nat:
  "slice xs (int a) (int b) = drop a (take b xs)"
  by (simp add: slice_def clip_def min_def)

lemma slice_between:
  "j \<le> length xs \<Longrightarrow> slice xs (int i + 1) (int j) = map (\<lambda>k. xs ! k) [Suc i..<j]"
proof -
  assume j: "j \<le> length xs"
  have "slice xs (int i + 1) (int j) = drop (Suc i) (take j xs)"
    using slice_nat [of xs "Suc i" j] by (simp add: add.commute)
  also have "\<dots> = map (\<lambda>k. xs ! k) [Suc i..<j]"
  proof (rule nth_equalityI)
    show "length (drop (Suc i) (take j xs)) = length (map (\<lambda>k. xs ! k) [Suc i..<j])"
      using j by simp
  next
    fix k assume "k < length (drop (Suc i) (take j xs))"
    with j show "drop (Suc i) (take j xs) ! k = map (\<lambda>k. xs ! k) [Suc i..<j] ! k"
      by simp
  qed
  finally show ?thesis .
qed

lemma slice_inner: "slice (x # xs @ [y]) 1 (- 1) = xs"
proof -
  have "nat (1 + int (length xs)) = Suc (length xs)"
    by simp
  then show ?thesis
    by (simp add: slice_def clip_def)
qed

subsection \<open>The dictionary\<close>

lemma lookup_Nil [simp]: "lookup [] k = []"
  by (simp add: lookup_def)

lemma lookup_modify:
  "lookup (modify d k f) k' = (if k' = k then f (lookup d k) else lookup d k')"
  by (simp add: lookup_def modify_def update_conv')

lemma keys_modify:
  "map fst (modify d k f) = (if k \<in> fst ` set d then map fst d else map fst d @ [k])"
  by (simp add: modify_def update_keys)

lemma key_set_modify: "fst ` set (modify d k f) = insert k (fst ` set d)"
  by (simp add: modify_def dom_update)

lemma distinct_modify: "distinct (map fst d) \<Longrightarrow> distinct (map fst (modify d k f))"
  by (simp add: modify_def distinct_update)

lemma lookup_nonempty_key: "lookup d k \<noteq> [] \<Longrightarrow> k \<in> fst ` set d"
proof -
  assume "lookup d k \<noteq> []"
  then obtain vs where "map_of d k = Some vs"
    by (auto simp: lookup_def split: option.splits)
  then have "(k, vs) \<in> set d"
    by (rule map_of_SomeD)
  then show ?thesis
    by force
qed

lemma delitem_Inr:
  "delitem d k = Inr d' \<Longrightarrow> d' = AList.delete k d \<and> k \<in> fst ` set d"
  by (auto simp: delitem_def map_of_eq_None_iff split: if_splits)

lemma delitem_key: "k \<in> fst ` set d \<Longrightarrow> delitem d k = Inr (AList.delete k d)"
  by (simp add: delitem_def map_of_eq_None_iff)

lemma lookup_delete:
  "lookup (AList.delete k d) k' = (if k' = k then [] else lookup d k')"
  by (simp add: lookup_def delete_conv')

subsection \<open>The loop over the data rows\<close>

lemma year_values_Nil [simp]: "year_values [] y = []"
  by (simp add: year_values_def)

lemma year_values_Cons:
  "year_values (p # ps) y =
     (if fst p = y then Some (snd p) # year_values ps y else year_values ps y)"
  by (simp add: year_values_def)

lemma year_values_append:
  "year_values (ps @ qs) y = year_values ps y @ year_values qs y"
  by (simp add: year_values_def)

lemma year_values_nonempty: "year_values ps y \<noteq> [] \<longleftrightarrow> y \<in> fst ` set ps"
  by (auto simp: year_values_def filter_empty_conv)

lemma length_year_values:
  "length (year_values ps y) = length (filter (\<lambda>p. fst p = y) ps)"
  by (simp add: year_values_def)

lemma group_rows_result:
  "group_rows d rows = Inr d' \<Longrightarrow>
     \<exists>ps. map parse_row rows = map Inr ps
        \<and> (\<forall>y. lookup d' y = lookup d y @ year_values ps y)
        \<and> fst ` set d' = fst ` set d \<union> fst ` set ps
        \<and> (distinct (map fst d) \<longrightarrow> distinct (map fst d'))"
proof (induction rows arbitrary: d)
  case Nil
  then have "d' = d" by simp
  then show ?case by (intro exI [of _ "[]"]) simp
next
  case (Cons r rows)
  from Cons.prems obtain y v where r: "parse_row r = Inr (y, v)"
    and g: "group_rows (modify d y (\<lambda>vs. vs @ [Some v])) rows = Inr d'"
    by (auto split: sum.splits)
  from Cons.IH [OF g] obtain ps where ps: "map parse_row rows = map Inr ps"
    and l: "\<forall>k. lookup d' k = lookup (modify d y (\<lambda>vs. vs @ [Some v])) k @ year_values ps k"
    and k: "fst ` set d' = fst ` set (modify d y (\<lambda>vs. vs @ [Some v])) \<union> fst ` set ps"
    and dd: "distinct (map fst (modify d y (\<lambda>vs. vs @ [Some v]))) \<longrightarrow> distinct (map fst d')"
    by blast
  have "map parse_row (r # rows) = map Inr ((y, v) # ps)"
    using r ps by simp
  moreover have "\<forall>k. lookup d' k = lookup d k @ year_values ((y, v) # ps) k"
    using l by (simp add: lookup_modify year_values_Cons)
  moreover have "fst ` set d' = fst ` set d \<union> fst ` set ((y, v) # ps)"
    using k by (simp add: key_set_modify)
  moreover have "distinct (map fst d) \<longrightarrow> distinct (map fst d')"
    using dd by (simp add: distinct_modify)
  ultimately show ?case by blast
qed

lemma group_rows_ok:
  "map parse_row rows = map Inr ps \<Longrightarrow> \<exists>d'. group_rows d rows = Inr d'"
proof (induction rows arbitrary: d ps)
  case Nil
  then show ?case by simp
next
  case (Cons r rows)
  from Cons.prems obtain p ps' where "ps = p # ps'" "parse_row r = Inr p"
    "map parse_row rows = map Inr ps'"
    by (cases ps) auto
  with Cons.IH [of ps'] show ?case
    by (cases p) simp
qed

lemma group_rows_fails:
  "r \<in> set rows \<Longrightarrow> parse_row r = Inl e \<Longrightarrow> \<exists>e'. group_rows d rows = Inl e'"
proof (induction rows arbitrary: d)
  case Nil
  then show ?case by simp
next
  case (Cons r' rows)
  show ?case
  proof (cases "parse_row r'")
    case (Inl x)
    then show ?thesis by simp
  next
    case (Inr p)
    with Cons.prems have "r \<in> set rows" by auto
    from Cons.IH [OF this Cons.prems(2)] Inr show ?thesis
      by (cases p) simp
  qed
qed

subsection \<open>The first and last value of the years, and the padding\<close>

lemma record_ends_Cons_Inr:
  "record_ends d e (y # ys) = Inr e' \<Longrightarrow>
     \<exists>v0 v1. getitem (lookup d y) 0 = Inr v0 \<and> getitem (lookup d y) (- 1) = Inr v1
        \<and> record_ends d (e(y \<mapsto> (v0, v1))) ys = Inr e'"
  by (cases "getitem (lookup d y) 0"; cases "getitem (lookup d y) (- 1)") simp_all

lemma record_ends_result:
  "record_ends d e ys = Inr e' \<Longrightarrow>
     (\<forall>y\<in>set ys. lookup d y \<noteq> [] \<and> e' y = Some (hd (lookup d y), last (lookup d y)))
     \<and> (\<forall>k. k \<notin> set ys \<longrightarrow> e' k = e k)"
proof (induction ys arbitrary: e)
  case Nil
  then show ?case by simp
next
  case (Cons y ys)
  from record_ends_Cons_Inr [OF Cons.prems] obtain v0 v1
    where a: "getitem (lookup d y) 0 = Inr v0"
    and b: "getitem (lookup d y) (- 1) = Inr v1"
    and c: "record_ends d (e(y \<mapsto> (v0, v1))) ys = Inr e'"
    by blast
  from getitem_first_Inr [OF a] have ne: "lookup d y \<noteq> []" and v0: "v0 = hd (lookup d y)"
    by simp_all
  from getitem_last_Inr [OF b] have v1: "v1 = last (lookup d y)"
    by simp
  from Cons.IH [OF c]
  have ih1: "\<forall>k\<in>set ys. lookup d k \<noteq> [] \<and> e' k = Some (hd (lookup d k), last (lookup d k))"
    and ih2: "\<forall>k. k \<notin> set ys \<longrightarrow> e' k = (e(y \<mapsto> (v0, v1))) k"
    by blast+
  have ey: "e' y = Some (hd (lookup d y), last (lookup d y))"
  proof (cases "y \<in> set ys")
    case True
    with ih1 show ?thesis by blast
  next
    case False
    with ih2 have "e' y = (e(y \<mapsto> (v0, v1))) y" by blast
    with v0 v1 show ?thesis by simp
  qed
  have c1: "\<forall>k\<in>set (y # ys). lookup d k \<noteq> []
      \<and> e' k = Some (hd (lookup d k), last (lookup d k))"
  proof
    fix k assume "k \<in> set (y # ys)"
    then have "k = y \<or> k \<in> set ys" by simp
    then show "lookup d k \<noteq> [] \<and> e' k = Some (hd (lookup d k), last (lookup d k))"
      using ne ey ih1 by blast
  qed
  have c2: "\<forall>k. k \<notin> set (y # ys) \<longrightarrow> e' k = e k"
  proof (intro allI impI)
    fix k assume k: "k \<notin> set (y # ys)"
    then have "e' k = (e(y \<mapsto> (v0, v1))) k" using ih2 by simp
    with k show "e' k = e k" by simp
  qed
  from c1 c2 show ?case by blast
qed

lemma record_ends_ok:
  "\<forall>y\<in>set ys. lookup d y \<noteq> [] \<Longrightarrow> \<exists>e'. record_ends d e ys = Inr e'"
proof (induction ys arbitrary: e)
  case Nil
  show ?case by simp
next
  case (Cons y ys)
  from Cons.prems have ne: "lookup d y \<noteq> []" and rest: "\<forall>k\<in>set ys. lookup d k \<noteq> []"
    by simp_all
  from Cons.IH [OF rest] obtain e' where
    "record_ends d (e(y \<mapsto> (hd (lookup d y), last (lookup d y)))) ys = Inr e'"
    by blast
  then have "record_ends d e (y # ys) = Inr e'"
    using getitem_first [OF ne] getitem_last [OF ne] by simp
  then show ?case by blast
qed

lemma pad_result:
  "distinct ys \<Longrightarrow> pad e d ys = Inr d' \<Longrightarrow>
     (\<forall>y\<in>set ys. \<exists>p n. e (y - 1) = Some p \<and> e (y + 1) = Some n
                          \<and> lookup d' y = snd p # lookup d y @ [fst n])
     \<and> (\<forall>k. k \<notin> set ys \<longrightarrow> lookup d' k = lookup d k)
     \<and> (set ys \<subseteq> fst ` set d \<longrightarrow> map fst d' = map fst d)"
proof (induction ys arbitrary: d)
  case Nil
  then show ?case by simp
next
  case (Cons y ys)
  from Cons.prems(2) obtain p n where p: "e (y - 1) = Some p" and n: "e (y + 1) = Some n"
    and r: "pad e (modify (modify d y (\<lambda>vs. snd p # vs)) y (\<lambda>vs. vs @ [fst n])) ys = Inr d'"
    by (auto simp: ends_item_def split: sum.splits option.splits)
  let ?d2 = "modify (modify d y (\<lambda>vs. snd p # vs)) y (\<lambda>vs. vs @ [fst n])"
  have l2: "\<And>k. lookup ?d2 k = (if k = y then snd p # lookup d y @ [fst n] else lookup d k)"
    by (simp add: lookup_modify)
  have k2: "y \<in> fst ` set d \<Longrightarrow> map fst ?d2 = map fst d"
    by (simp add: keys_modify key_set_modify)
  have s2: "fst ` set ?d2 = insert y (fst ` set d)"
    by (simp add: key_set_modify)
  from Cons.prems(1) have dist: "distinct ys" and yn: "y \<notin> set ys" by simp_all
  from Cons.IH [OF dist r]
  have ih1: "\<forall>k\<in>set ys. \<exists>p n. e (k - 1) = Some p \<and> e (k + 1) = Some n
                \<and> lookup d' k = snd p # lookup ?d2 k @ [fst n]"
    and ih2: "\<forall>k. k \<notin> set ys \<longrightarrow> lookup d' k = lookup ?d2 k"
    and ih3: "set ys \<subseteq> fst ` set ?d2 \<longrightarrow> map fst d' = map fst ?d2"
    by blast+
  have c1: "\<forall>k\<in>set (y # ys). \<exists>p n. e (k - 1) = Some p \<and> e (k + 1) = Some n
                \<and> lookup d' k = snd p # lookup d k @ [fst n]"
  proof
    fix k assume k: "k \<in> set (y # ys)"
    show "\<exists>p n. e (k - 1) = Some p \<and> e (k + 1) = Some n
                \<and> lookup d' k = snd p # lookup d k @ [fst n]"
    proof (cases "k = y")
      case True
      have "lookup d' y = lookup ?d2 y"
        using ih2 yn by blast
      then have "lookup d' y = snd p # lookup d y @ [fst n]"
        using l2 by simp
      with p n True show ?thesis by blast
    next
      case False
      with k have "k \<in> set ys" by simp
      with ih1 obtain p' n' where "e (k - 1) = Some p'" "e (k + 1) = Some n'"
        "lookup d' k = snd p' # lookup ?d2 k @ [fst n']"
        by blast
      moreover have "lookup ?d2 k = lookup d k"
        using l2 False by simp
      ultimately have "e (k - 1) = Some p' \<and> e (k + 1) = Some n'
          \<and> lookup d' k = snd p' # lookup d k @ [fst n']"
        by simp
      then show ?thesis by blast
    qed
  qed
  have c2: "\<forall>k. k \<notin> set (y # ys) \<longrightarrow> lookup d' k = lookup d k"
    using ih2 l2 by simp
  have c3: "set (y # ys) \<subseteq> fst ` set d \<longrightarrow> map fst d' = map fst d"
  proof
    assume a: "set (y # ys) \<subseteq> fst ` set d"
    then have "y \<in> fst ` set d" by simp
    then have "map fst ?d2 = map fst d" by (rule k2)
    moreover from a s2 have "set ys \<subseteq> fst ` set ?d2" by auto
    with ih3 have "map fst d' = map fst ?d2" by blast
    ultimately show "map fst d' = map fst d" by simp
  qed
  from c1 c2 c3 show ?case by blast
qed

lemma pad_ok:
  "\<forall>y\<in>set ys. e (y - 1) \<noteq> None \<and> e (y + 1) \<noteq> None \<Longrightarrow> \<exists>d'. pad e d ys = Inr d'"
  by (induction ys arbitrary: d) (auto simp: ends_item_def)

subsection \<open>After the loop\<close>

lemma last_single: "length xs = 1 \<Longrightarrow> last xs = hd xs"
  by (cases xs) simp_all

lemma finish_Inr:
  assumes "finish start end_year d = Inr T"
  shows "\<exists>v0 v1 e d1 d2.
           length (lookup d (start - 1)) = 1 \<and> length (lookup d (end_year + 1)) = 1
         \<and> getitem (lookup d (start - 1)) 0 = Inr v0
         \<and> getitem (lookup d (end_year + 1)) 0 = Inr v1
         \<and> record_ends d ((Map.empty(start - 1 \<mapsto> (None, v0)))(end_year + 1 \<mapsto> (v1, None)))
               [start..end_year] = Inr e
         \<and> pad e d [start..end_year] = Inr d1
         \<and> delitem d1 (start - 1) = Inr d2
         \<and> delitem d2 (end_year + 1) = Inr T"
proof -
  from assms have l0: "length (lookup d (start - 1)) = 1"
    and l1: "length (lookup d (end_year + 1)) = 1"
    by (auto simp: finish_def split: if_splits)
  from assms l0 l1 obtain v0 where a: "getitem (lookup d (start - 1)) 0 = Inr v0"
    by (cases "getitem (lookup d (start - 1)) 0") (simp_all add: finish_def)
  from assms l0 l1 a obtain v1 where b: "getitem (lookup d (end_year + 1)) 0 = Inr v1"
    by (cases "getitem (lookup d (end_year + 1)) 0") (simp_all add: finish_def)
  let ?e0 = "(Map.empty(start - 1 \<mapsto> (None, v0)))(end_year + 1 \<mapsto> (v1, None))"
  from assms l0 l1 a b obtain e where c: "record_ends d ?e0 [start..end_year] = Inr e"
    by (cases "record_ends d ?e0 [start..end_year]") (simp_all add: finish_def)
  from assms l0 l1 a b c obtain d1 where p: "pad e d [start..end_year] = Inr d1"
    by (cases "pad e d [start..end_year]") (simp_all add: finish_def)
  from assms l0 l1 a b c p obtain d2 where q: "delitem d1 (start - 1) = Inr d2"
    by (cases "delitem d1 (start - 1)") (simp_all add: finish_def)
  from assms l0 l1 a b c p q have "delitem d2 (end_year + 1) = Inr T"
    by (simp add: finish_def)
  with l0 l1 a b c p q show ?thesis by blast
qed

lemma finish_result:
  assumes f: "finish start end_year d = Inr T"
  shows "length (lookup d (start - 1)) = 1 \<and> length (lookup d (end_year + 1)) = 1
       \<and> start - 1 \<noteq> end_year + 1
       \<and> (\<forall>y. start \<le> y \<and> y \<le> end_year \<longrightarrow>
             lookup d y \<noteq> []
             \<and> lookup T y = last (lookup d (y - 1)) # lookup d y @ [hd (lookup d (y + 1))])
       \<and> map fst T = removeAll (end_year + 1) (removeAll (start - 1) (map fst d))"
proof -
  from finish_Inr [OF f] obtain v0 v1 e d1 d2
    where l0: "length (lookup d (start - 1)) = 1"
      and l1: "length (lookup d (end_year + 1)) = 1"
      and a: "getitem (lookup d (start - 1)) 0 = Inr v0"
      and b: "getitem (lookup d (end_year + 1)) 0 = Inr v1"
      and c: "record_ends d ((Map.empty(start - 1 \<mapsto> (None, v0)))(end_year + 1 \<mapsto> (v1, None)))
               [start..end_year] = Inr e"
      and p: "pad e d [start..end_year] = Inr d1"
      and q: "delitem d1 (start - 1) = Inr d2"
      and r: "delitem d2 (end_year + 1) = Inr T"
    by blast
  let ?e0 = "(Map.empty(start - 1 \<mapsto> (None, v0)))(end_year + 1 \<mapsto> (v1, None))"
  from record_ends_result [OF c]
  have e_in: "\<forall>y\<in>set [start..end_year]. lookup d y \<noteq> []
                \<and> e y = Some (hd (lookup d y), last (lookup d y))"
    and e_out: "\<forall>k. k \<notin> set [start..end_year] \<longrightarrow> e k = ?e0 k"
    by blast+
  have dist: "distinct [start..end_year]" by simp
  from pad_result [OF dist p]
  have p_in: "\<forall>y\<in>set [start..end_year]. \<exists>p n. e (y - 1) = Some p \<and> e (y + 1) = Some n
                \<and> lookup d1 y = snd p # lookup d y @ [fst n]"
    and p_keys: "set [start..end_year] \<subseteq> fst ` set d \<longrightarrow> map fst d1 = map fst d"
    by blast+
  from delitem_Inr [OF q] have d2: "d2 = AList.delete (start - 1) d1" by simp
  from delitem_Inr [OF r] have T: "T = AList.delete (end_year + 1) d2"
    and k2: "end_year + 1 \<in> fst ` set d2" by simp_all
  have neq: "start - 1 \<noteq> end_year + 1"
  proof
    assume eq: "start - 1 = end_year + 1"
    from k2 have "end_year + 1 \<in> fst ` set (AList.delete (start - 1) d1)"
      unfolding d2 .
    then have "start - 1 \<in> fst ` set (AList.delete (start - 1) d1)"
      unfolding eq .
    then show False
      using delete_notin_dom [of "start - 1" d1] by blast
  qed
  from getitem_first_Inr [OF a] l0 have v0: "v0 = last (lookup d (start - 1))"
    by (simp add: last_single)
  from getitem_first_Inr [OF b] have v1: "v1 = hd (lookup d (end_year + 1))"
    by simp
  have e_first: "e (start - 1) = Some (None, v0)"
  proof -
    have "start - 1 \<notin> set [start..end_year]" by simp
    with e_out have "e (start - 1) = ?e0 (start - 1)" by blast
    with neq show ?thesis by simp
  qed
  have e_last: "e (end_year + 1) = Some (v1, None)"
  proof -
    have "end_year + 1 \<notin> set [start..end_year]" by simp
    with e_out have "e (end_year + 1) = ?e0 (end_year + 1)" by blast
    then show ?thesis by simp
  qed
  have main: "\<forall>y. start \<le> y \<and> y \<le> end_year \<longrightarrow>
             lookup d y \<noteq> []
             \<and> lookup T y = last (lookup d (y - 1)) # lookup d y @ [hd (lookup d (y + 1))]"
  proof (intro allI impI)
    fix y assume y: "start \<le> y \<and> y \<le> end_year"
    then have ys: "y \<in> set [start..end_year]" by simp
    with e_in have ne: "lookup d y \<noteq> []" by blast
    from p_in ys obtain p n where ep: "e (y - 1) = Some p" and en: "e (y + 1) = Some n"
      and l: "lookup d1 y = snd p # lookup d y @ [fst n]"
      by blast
    have sp: "snd p = last (lookup d (y - 1))"
    proof (cases "y = start")
      case True
      with ep e_first have "p = (None, v0)" by simp
      with v0 True show ?thesis by simp
    next
      case False
      with y have "y - 1 \<in> set [start..end_year]" by simp
      with e_in have "e (y - 1) = Some (hd (lookup d (y - 1)), last (lookup d (y - 1)))"
        by blast
      with ep show ?thesis by auto
    qed
    have fn: "fst n = hd (lookup d (y + 1))"
    proof (cases "y = end_year")
      case True
      with en e_last have "n = (v1, None)" by simp
      with v1 True show ?thesis by simp
    next
      case False
      with y have "y + 1 \<in> set [start..end_year]" by simp
      with e_in have "e (y + 1) = Some (hd (lookup d (y + 1)), last (lookup d (y + 1)))"
        by blast
      with en show ?thesis by auto
    qed
    from y have "y \<noteq> start - 1" "y \<noteq> end_year + 1" by simp_all
    then have "lookup T y = lookup d1 y"
      by (simp add: T d2 lookup_delete)
    with l sp fn ne
    show "lookup d y \<noteq> []
        \<and> lookup T y = last (lookup d (y - 1)) # lookup d y @ [hd (lookup d (y + 1))]"
      by simp
  qed
  have "set [start..end_year] \<subseteq> fst ` set d"
  proof
    fix y assume "y \<in> set [start..end_year]"
    with e_in have "lookup d y \<noteq> []" by blast
    then show "y \<in> fst ` set d" by (rule lookup_nonempty_key)
  qed
  with p_keys have "map fst d1 = map fst d" by blast
  then have keys: "map fst T = removeAll (end_year + 1) (removeAll (start - 1) (map fst d))"
    by (simp add: T d2 delete_keys)
  from l0 l1 neq main keys show ?thesis by blast
qed

lemma finish_ok:
  assumes l0: "length (lookup d (start - 1)) = 1"
    and l1: "length (lookup d (end_year + 1)) = 1"
    and ne: "\<forall>y. start \<le> y \<and> y \<le> end_year \<longrightarrow> lookup d y \<noteq> []"
    and neq: "start - 1 \<noteq> end_year + 1"
  shows "\<exists>T. finish start end_year d = Inr T"
proof -
  from l0 have n0: "lookup d (start - 1) \<noteq> []" by auto
  from l1 have n1: "lookup d (end_year + 1) \<noteq> []" by auto
  let ?v0 = "hd (lookup d (start - 1))" and ?v1 = "hd (lookup d (end_year + 1))"
  let ?e0 = "(Map.empty(start - 1 \<mapsto> (None, ?v0)))(end_year + 1 \<mapsto> (?v1, None))"
  have a: "getitem (lookup d (start - 1)) 0 = Inr ?v0"
    using n0 by (rule getitem_first)
  have b: "getitem (lookup d (end_year + 1)) 0 = Inr ?v1"
    using n1 by (rule getitem_first)
  from ne have "\<forall>y\<in>set [start..end_year]. lookup d y \<noteq> []" by simp
  from record_ends_ok [OF this] obtain e
    where c: "record_ends d ?e0 [start..end_year] = Inr e" by blast
  from record_ends_result [OF c]
  have e_in: "\<forall>y\<in>set [start..end_year]. lookup d y \<noteq> []
                \<and> e y = Some (hd (lookup d y), last (lookup d y))"
    and e_out: "\<forall>k. k \<notin> set [start..end_year] \<longrightarrow> e k = ?e0 k"
    by blast+
  have e_def: "\<forall>y\<in>set [start..end_year]. e (y - 1) \<noteq> None \<and> e (y + 1) \<noteq> None"
  proof
    fix y assume ys: "y \<in> set [start..end_year]"
    have "e (y - 1) \<noteq> None"
    proof (cases "y = start")
      case True
      have "start - 1 \<notin> set [start..end_year]" by simp
      with e_out have "e (start - 1) = ?e0 (start - 1)" by blast
      with neq True show ?thesis by simp
    next
      case False
      with ys have "y - 1 \<in> set [start..end_year]" by simp
      with e_in show ?thesis by auto
    qed
    moreover have "e (y + 1) \<noteq> None"
    proof (cases "y = end_year")
      case True
      have "end_year + 1 \<notin> set [start..end_year]" by simp
      with e_out have "e (end_year + 1) = ?e0 (end_year + 1)" by blast
      with True show ?thesis by simp
    next
      case False
      with ys have "y + 1 \<in> set [start..end_year]" by simp
      with e_in show ?thesis by auto
    qed
    ultimately show "e (y - 1) \<noteq> None \<and> e (y + 1) \<noteq> None" by simp
  qed
  from pad_ok [OF e_def] obtain d1 where p: "pad e d [start..end_year] = Inr d1"
    by blast
  have dist: "distinct [start..end_year]" by simp
  from pad_result [OF dist p]
  have p_out: "\<forall>k. k \<notin> set [start..end_year] \<longrightarrow> lookup d1 k = lookup d k"
    by blast
  have "start - 1 \<notin> set [start..end_year]" by simp
  with p_out n0 have "lookup d1 (start - 1) \<noteq> []" by simp
  then have "start - 1 \<in> fst ` set d1" by (rule lookup_nonempty_key)
  then have q: "delitem d1 (start - 1) = Inr (AList.delete (start - 1) d1)"
    by (rule delitem_key)
  have "end_year + 1 \<notin> set [start..end_year]" by simp
  with p_out n1 have "lookup d1 (end_year + 1) \<noteq> []" by simp
  with neq have "lookup (AList.delete (start - 1) d1) (end_year + 1) \<noteq> []"
    by (simp add: lookup_delete)
  then have "end_year + 1 \<in> fst ` set (AList.delete (start - 1) d1)"
    by (rule lookup_nonempty_key)
  then have r: "delitem (AList.delete (start - 1) d1) (end_year + 1)
      = Inr (AList.delete (end_year + 1) (AList.delete (start - 1) d1))"
    by (rule delitem_key)
  have "finish start end_year d
      = Inr (AList.delete (end_year + 1) (AList.delete (start - 1) d1))"
    unfolding finish_def using l0 l1 a b c p q r by simp
  then show ?thesis by blast
qed

subsection \<open>From the rows to the table\<close>

lemma process_Inr:
  "process start end_year rows = Inr T \<Longrightarrow>
     \<exists>d. group_rows [] rows = Inr d \<and> finish start end_year d = Inr T"
  by (cases "group_rows [] rows") (simp_all add: process_def)

lemma run_Inr:
  "run start end_year text = Inr T \<Longrightarrow>
     \<exists>rows. data_rows text = Inr rows \<and> process start end_year rows = Inr T"
  by (cases "data_rows text") (simp_all add: run_def)

lemma map_Inr_inject: "map Inr ps = map Inr qs \<Longrightarrow> ps = qs"
  by (simp add: inj_map_eq_map)

lemma group_rows_from_empty:
  "group_rows [] rows = Inr d \<Longrightarrow>
     \<exists>ps. map parse_row rows = map Inr ps
        \<and> (\<forall>y. lookup d y = year_values ps y)
        \<and> fst ` set d = fst ` set ps
        \<and> distinct (map fst d)"
  using group_rows_result [of "[]" rows d] by simp

lemma process_result:
  assumes "process start end_year rows = Inr T"
  obtains ps where "map parse_row rows = map Inr ps"
    and "length (year_values ps (start - 1)) = 1"
    and "length (year_values ps (end_year + 1)) = 1"
    and "start - 1 \<noteq> end_year + 1"
    and "\<forall>y. start \<le> y \<and> y \<le> end_year \<longrightarrow>
           year_values ps y \<noteq> []
           \<and> lookup T y = last (year_values ps (y - 1)) # year_values ps y
                           @ [hd (year_values ps (y + 1))]"
    and "distinct (map fst T)"
    and "set (map fst T) = fst ` set ps - {start - 1, end_year + 1}"
proof -
  from process_Inr [OF assms] obtain d where g: "group_rows [] rows = Inr d"
    and f: "finish start end_year d = Inr T"
    by blast
  from group_rows_from_empty [OF g] obtain ps where ps: "map parse_row rows = map Inr ps"
    and l: "\<forall>y. lookup d y = year_values ps y"
    and k: "fst ` set d = fst ` set ps"
    and dist: "distinct (map fst d)"
    by blast
  from l have l': "\<And>y. lookup d y = year_values ps y" by simp
  from finish_result [OF f]
  have a: "length (lookup d (start - 1)) = 1" and b: "length (lookup d (end_year + 1)) = 1"
    and c: "start - 1 \<noteq> end_year + 1"
    and m: "\<forall>y. start \<le> y \<and> y \<le> end_year \<longrightarrow>
             lookup d y \<noteq> []
             \<and> lookup T y = last (lookup d (y - 1)) # lookup d y @ [hd (lookup d (y + 1))]"
    and keys: "map fst T = removeAll (end_year + 1) (removeAll (start - 1) (map fst d))"
    by blast+
  have "distinct (map fst T)"
    unfolding keys using dist by (simp add: distinct_removeAll)
  moreover have "set (map fst T) = fst ` set ps - {start - 1, end_year + 1}"
    unfolding keys using k by auto
  ultimately show ?thesis
    using that [of ps] ps a b c m unfolding l' by blast
qed

lemma process_ok:
  assumes ps: "map parse_row rows = map Inr ps"
    and l0: "length (year_values ps (start - 1)) = 1"
    and l1: "length (year_values ps (end_year + 1)) = 1"
    and ne: "\<forall>y. start \<le> y \<and> y \<le> end_year \<longrightarrow> year_values ps y \<noteq> []"
    and neq: "start - 1 \<noteq> end_year + 1"
  shows "\<exists>T. process start end_year rows = Inr T"
proof -
  from group_rows_ok [OF ps] obtain d where g: "group_rows [] rows = Inr d"
    by blast
  from group_rows_from_empty [OF g] obtain qs where qs: "map parse_row rows = map Inr qs"
    and l: "\<forall>y. lookup d y = year_values qs y"
    by blast
  from ps qs have "qs = ps" by (simp add: map_Inr_inject)
  with l have l': "\<And>y. lookup d y = year_values ps y" by simp
  from finish_ok [of d start end_year] l0 l1 ne neq obtain T
    where "finish start end_year d = Inr T"
    unfolding l' by blast
  with g have "process start end_year rows = Inr T"
    by (simp add: process_def)
  then show ?thesis by blast
qed

subsection \<open>The lines of a text and the data rows\<close>

lemma split_on_no_separator: "c \<notin> set s \<Longrightarrow> split_on c s = [s]"
proof -
  assume "c \<notin> set s"
  then have d: "dropWhile (\<lambda>x. x \<noteq> c) s = []"
    by (auto simp: dropWhile_eq_Nil_conv)
  show ?thesis
    by (subst split_on.simps) (simp only: d list.case)
qed

lemma split_on_first: "c \<notin> set l \<Longrightarrow> split_on c (l @ c # rest) = l # split_on c rest"
proof -
  assume a: "c \<notin> set l"
  then have d: "dropWhile (\<lambda>x. x \<noteq> c) (l @ c # rest) = c # rest"
    by (subst dropWhile_append2) auto
  from a have t: "takeWhile (\<lambda>x. x \<noteq> c) (l @ c # rest) = l"
    by (subst takeWhile_append2) auto
  show ?thesis
    by (subst split_on.simps) (simp add: d t)
qed

lemma split_join_lines:
  "ls \<noteq> [] \<Longrightarrow> \<forall>l\<in>set ls. CHR 0x0A \<notin> set l \<Longrightarrow>
     split_on CHR 0x0A (join_lines ls) = ls"
proof (induction ls rule: join_lines.induct)
  case 1
  then show ?case by simp
next
  case (2 l)
  then show ?case by (simp add: split_on_no_separator)
next
  case (3 l m ls)
  then have "split_on CHR 0x0A (join_lines (m # ls)) = m # ls" by simp
  moreover from 3 have "CHR 0x0A \<notin> set l" by simp
  ultimately show ?case by (simp add: split_on_first)
qed

lemma index_after: "x \<notin> set xs \<Longrightarrow> index (xs @ x # ys) x = Inr (length xs)"
  by (rule index_append_first)

lemma rows_between_sandwich:
  assumes "''$$SOE'' \<notin> set pre" and "''$$EOE'' \<notin> set pre" and "''$$EOE'' \<notin> set rows"
  shows "rows_between (pre @ ''$$SOE'' # rows @ ''$$EOE'' # post) = Inr rows"
proof -
  let ?lines = "pre @ ''$$SOE'' # rows @ ''$$EOE'' # post"
  have i: "index ?lines ''$$SOE'' = Inr (length pre)"
    using assms(1) by (rule index_append_first)
  have "''$$EOE'' \<notin> set (pre @ ''$$SOE'' # rows)"
    using assms(2,3) by simp
  then have "index ((pre @ ''$$SOE'' # rows) @ ''$$EOE'' # post) ''$$EOE''
      = Inr (length (pre @ ''$$SOE'' # rows))"
    by (rule index_append_first)
  then have j: "index ?lines ''$$EOE'' = Inr (length pre + 1 + length rows)"
    by simp
  have "slice ?lines (int (length pre) + 1) (int (length pre + 1 + length rows))
      = drop (Suc (length pre)) (take (length pre + 1 + length rows) ?lines)"
    using slice_nat [of ?lines "Suc (length pre)" "length pre + 1 + length rows"]
    by (simp add: add.commute)
  also have "take (length pre + 1 + length rows) ?lines = pre @ ''$$SOE'' # rows"
    by simp
  also have "drop (Suc (length pre)) (pre @ ''$$SOE'' # rows) = rows"
    by simp
  finally show ?thesis
    by (simp add: rows_between_def i j)
qed

lemma data_rows_join_lines:
  assumes "\<forall>l\<in>set pre \<union> set rows \<union> set post. CHR 0x0A \<notin> set l"
    and "''$$SOE'' \<notin> set pre" and "''$$EOE'' \<notin> set pre" and "''$$EOE'' \<notin> set rows"
  shows "data_rows (join_lines (pre @ ''$$SOE'' # rows @ ''$$EOE'' # post)) = Inr rows"
proof -
  have "\<forall>l\<in>set (pre @ ''$$SOE'' # rows @ ''$$EOE'' # post). CHR 0x0A \<notin> set l"
    using assms(1) by auto
  then have "split_on CHR 0x0A (join_lines (pre @ ''$$SOE'' # rows @ ''$$EOE'' # post))
      = pre @ ''$$SOE'' # rows @ ''$$EOE'' # post"
    by (intro split_join_lines) simp_all
  then show ?thesis
    using rows_between_sandwich [OF assms(2,3,4)] by (simp add: data_rows_def)
qed

subsection \<open>Evaluation of the model on concrete input\<close>

text \<open>
  The floor of a quotient of two numerals is an integer division; with these equations the
  simplifier computes the functions of the model on numerals and on strings.
\<close>

lemma floor_rat_numeral_div:
  "\<lfloor>numeral a / numeral b :: rat\<rfloor> = numeral a div numeral b"
  by (metis floor_divide_of_int_eq of_int_numeral)

lemma floor_rat_neg_numeral_div:
  "\<lfloor>- (numeral a / numeral b) :: rat\<rfloor> = - numeral a div numeral b"
  by (metis divide_minus_left floor_divide_of_int_eq of_int_neg_numeral of_int_numeral)

lemma floor_rat_one_div:
  "\<lfloor>1 / numeral b :: rat\<rfloor> = 1 div numeral b"
  by (metis floor_divide_of_int_eq of_int_1 of_int_numeral)

lemma floor_rat_neg_one_div:
  "\<lfloor>- (1 / numeral b) :: rat\<rfloor> = - 1 div numeral b"
  by (metis divide_minus_left floor_divide_of_int_eq of_int_minus of_int_1 of_int_numeral)

lemma ceiling_rat_numeral_div:
  "\<lceil>numeral a / numeral b :: rat\<rceil> = - (- numeral a div numeral b)"
  unfolding ceiling_def by (simp add: floor_rat_neg_numeral_div)

lemmas float_eval =
  rnd64_def overflows_def ulp_exp_def nearest_def ilog2_def pow2_def round_half_even_def
  nearest_of_def bit_length.simps floor_rat_numeral_div floor_rat_neg_numeral_div
  floor_rat_one_div floor_rat_neg_one_div ceiling_rat_numeral_div eot_def fsub_def

lemmas string_eval =
  code_point_def between_def is_space_def is_digit_def digit_val_def digits_val_def
  strip_sign_def py_strip_def py_split.simps split_on.simps getitem_def py_int_def
  same_word_def is_exp_char_def float_exponent_def float_mantissa_def mantissa_value_def
  pow10_def py_float_def parse_row_def parse_tokens_def

subsection \<open>The worked example of the specification\<close>

text \<open>
  Claim C9 as the specification states it: the conversion of the apparent solar time
  \<^verbatim>\<open>11:57:11.8441\<close> gives \<^verbatim>\<open>-2.52\<close> minutes after rounding to two decimals. The first
  data row of the response shown in the script carries this time; the value the script
  stores for it is not the float \<^verbatim>\<open>-2.52\<close>.
\<close>

theorem worked_example_is_not_minus_2_52:
  "map_sum id snd (parse_row '' 1999-Dec-31 12:00 *m  11 57 11.8441'') \<noteq> py_float ''-2.52''"
  by (simp add: string_eval float_eval)

text \<open>
  Claim C9, amended: the conversion of the apparent solar time \<^verbatim>\<open>11:57:11.8441\<close> gives
  \<^verbatim>\<open>-2.8\<close> minutes after rounding to two decimals (11:57:11.8441 is 2 minutes and
  48.1559 seconds before noon).
\<close>

theorem worked_example_is_minus_2_80:
  "map_sum id snd (parse_row '' 1999-Dec-31 12:00 *m  11 57 11.8441'') = py_float ''-2.8''"
  by (simp add: string_eval float_eval)

subsection \<open>The example response\<close>

lemmas table_eval =
  lookup_def modify_def delitem_def ends_item_def finish_def process_def run_def

lemma parse_row_a: "parse_row row_a = Inr (1999, val_a)"
  by (simp add: row_a_def val_a_def string_eval float_eval)

lemma parse_row_b: "parse_row row_b = Inr (2000, val_b)"
  by (simp add: row_b_def val_b_def string_eval float_eval)

lemma parse_row_c: "parse_row row_c = Inr (2000, val_c)"
  by (simp add: row_c_def val_c_def string_eval float_eval)

lemma parse_row_d: "parse_row row_d = Inr (2001, val_d)"
  by (simp add: row_d_def val_d_def string_eval float_eval)

lemma parse_row_e: "parse_row row_e = Inr (2001, val_e)"
  by (simp add: row_e_def val_e_def string_eval float_eval)

lemma parse_row_f: "parse_row row_f = Inr (2002, val_f)"
  by (simp add: row_f_def val_f_def string_eval float_eval)

lemmas parse_sample_rows =
  parse_row_a parse_row_b parse_row_c parse_row_d parse_row_e parse_row_f

lemma sample_parsed: "map parse_row sample_rows = map Inr sample_pairs"
  by (simp add: sample_rows_def sample_pairs_def parse_sample_rows)

lemma sample_data_rows: "data_rows sample_response = Inr sample_rows"
  unfolding sample_response_def
  by (rule data_rows_join_lines)
     (simp_all add: sample_rows_def row_a_def row_b_def row_c_def row_d_def row_e_def
        row_f_def)

lemma sample_grouped: "group_rows [] sample_rows = Inr sample_groups"
proof -
  have "group_rows [] sample_rows
      = Inr (modify (modify (modify (modify (modify (modify [] 1999 (\<lambda>vs. vs @ [Some val_a]))
          2000 (\<lambda>vs. vs @ [Some val_b])) 2000 (\<lambda>vs. vs @ [Some val_c]))
          2001 (\<lambda>vs. vs @ [Some val_d])) 2001 (\<lambda>vs. vs @ [Some val_e]))
          2002 (\<lambda>vs. vs @ [Some val_f]))"
    by (simp add: sample_rows_def parse_sample_rows)
  then show ?thesis
    by (simp add: sample_groups_def lookup_def modify_def)
qed

lemma sample_finished: "finish 2000 2001 sample_groups = Inr sample_table"
  by (simp add: sample_groups_def sample_table_def table_eval getitem_def)

lemma sample_run: "run 2000 2001 sample_response = Inr sample_table"
  by (simp add: run_def process_def sample_data_rows sample_grouped sample_finished)

subsection \<open>The padded sequences\<close>







text \<open>
  Claim C5: for every year \<open>y\<close> of the range, padding changes only the two ends of the
  sequence: the interior \<^verbatim>\<open>table[y][1:-1]\<close> is the sequence of the rounded values of the
  data rows of the year \<open>y\<close>, in the order of the rows.
\<close>

theorem interior_is_own_sequence:
  assumes "run start end_year text = Inr T"
  shows "\<exists>rows ps. data_rows text = Inr rows \<and> map parse_row rows = map Inr ps
           \<and> (\<forall>y. start \<le> y \<and> y \<le> end_year \<longrightarrow>
                  slice (lookup T y) 1 (- 1) = year_values ps y)"
proof -
  from run_Inr [OF assms] obtain rows where r: "data_rows text = Inr rows"
    and p: "process start end_year rows = Inr T"
    by blast
  from p obtain ps where ps: "map parse_row rows = map Inr ps"
    and m: "\<forall>y. start \<le> y \<and> y \<le> end_year \<longrightarrow>
           year_values ps y \<noteq> []
           \<and> lookup T y = last (year_values ps (y - 1)) # year_values ps y
                           @ [hd (year_values ps (y + 1))]"
    by (rule process_result)
  have "\<forall>y. start \<le> y \<and> y \<le> end_year \<longrightarrow> slice (lookup T y) 1 (- 1) = year_values ps y"
  proof (intro allI impI)
    fix y assume "start \<le> y \<and> y \<le> end_year"
    with m have "lookup T y = last (year_values ps (y - 1)) # year_values ps y
                           @ [hd (year_values ps (y + 1))]"
      by blast
    then show "slice (lookup T y) 1 (- 1) = year_values ps y"
      by (simp only: slice_inner)
  qed
  with r ps show ?thesis by blast
qed

theorem interior_is_own_sequence_witness:
  "run 2000 2001 sample_response = Inr sample_table
   \<and> slice (lookup sample_table 2000) 1 (- 1) = [Some val_b, Some val_c]
   \<and> slice (lookup sample_table 2001) 1 (- 1) = [Some val_d, Some val_e]"
proof -
  from interior_is_own_sequence [OF sample_run] obtain rows ps
    where r: "data_rows sample_response = Inr rows"
      and p: "map parse_row rows = map Inr ps"
      and s: "\<forall>y. 2000 \<le> y \<and> y \<le> 2001 \<longrightarrow>
                slice (lookup sample_table y) 1 (- 1) = year_values ps y"
    by blast
  from r have "rows = sample_rows"
    by (simp add: sample_data_rows)
  with p have "ps = sample_pairs"
    by (simp add: sample_parsed map_Inr_inject)
  with s have "slice (lookup sample_table 2000) 1 (- 1) = year_values sample_pairs 2000"
    and "slice (lookup sample_table 2001) 1 (- 1) = year_values sample_pairs 2001"
    by simp_all
  then show ?thesis
    using sample_run by (simp add: sample_pairs_def year_values_def)
qed

text \<open>
  Claim C6: if after grouping the boundary year \<open>start - 1\<close> or the boundary year
  \<open>end + 1\<close> holds no sample or more than one, the program stops with the failed
  assertion and writes nothing.
\<close>

theorem boundary_years_asserted:
  assumes "data_rows text = Inr rows" and "group_rows [] rows = Inr d"
    and "length (lookup d (start - 1)) \<noteq> 1 \<or> length (lookup d (end_year + 1)) \<noteq> 1"
  shows "run start end_year text = Inl AssertionError"
  using assms by (auto simp: run_def process_def finish_def)

theorem boundary_years_asserted_witness:
  "data_rows sample_response = Inr sample_rows \<and> group_rows [] sample_rows = Inr sample_groups
   \<and> length (lookup sample_groups (2001 - 1)) = 2
   \<and> run 2001 2001 sample_response = Inl AssertionError
   \<and> length (lookup sample_groups (2004 + 1)) = 0
   \<and> run 2004 2004 sample_response = Inl AssertionError"
proof -
  have a: "length (lookup sample_groups (2001 - 1)) = 2"
    and b: "length (lookup sample_groups (2004 + 1)) = 0"
    by (simp_all add: sample_groups_def lookup_def)
  from a have "run 2001 2001 sample_response = Inl AssertionError"
    by (intro boundary_years_asserted [OF sample_data_rows sample_grouped]) simp
  moreover from b have "run 2004 2004 sample_response = Inl AssertionError"
    by (intro boundary_years_asserted [OF sample_data_rows sample_grouped]) simp
  ultimately show ?thesis
    using a b sample_data_rows sample_grouped by simp
qed

end
